theory Spec2Isabelle
  imports
    Main
    "HOL-Library.Char_ord"
    "HOL-Library.List_Lexorder"
    "HOL-Library.Sublist"
    "HOL-Library.AList"
    "HOL-Library.Multiset"
begin

section \<open>Work items\<close>

text \<open>
  The script \<^verbatim>\<open>docs/create-issues.py\<close> reads a list of issue dictionaries from a JSON
  file, sorts them, renders a body for each and creates one tracker issue per item.

  An issue dictionary is a record with the nine keys the script reads. The key
  \<^verbatim>\<open>id\<close> is the field \<open>issue_id\<close> (the name of the loop variable that holds it), since
  \<open>id\<close> is the identity function of HOL. Identifiers, effort and dependency entries are
  Python integers. A phase is a JSON number or a JSON string; the string
  \<^verbatim>\<open>cross-cutting\<close> is the reserved marker. Strings are lists of characters.
\<close>

datatype phase = PInt int | PStr string

record issue =
  issue_id :: int
  title :: string
  description :: string
  effort_days :: int
  priority :: string
  phase :: phase
  dependencies :: "int list"
  acceptance_criteria :: "string list"
  labels :: "string list"

definition cross_cutting :: string where
  "cross_cutting = ''cross-cutting''"

subsection \<open>Python's string conversions\<close>

text \<open>\<^verbatim>\<open>str(n)\<close> of an integer: its decimal digits, with a minus sign below zero.\<close>

fun str_nat :: "nat \<Rightarrow> string" where
  "str_nat n =
     (if n < 10 then [''0123456789'' ! n]
      else str_nat (n div 10) @ [''0123456789'' ! (n mod 10)])"

declare str_nat.simps [simp del]

definition str_int :: "int \<Rightarrow> string" where
  "str_int i = (if i < 0 then CHR ''-'' # str_nat (nat (- i)) else str_nat (nat i))"

text \<open>What an f-string prints for a phase: the number in decimal, or the string itself.\<close>

fun str_phase :: "phase \<Rightarrow> string" where
  "str_phase (PInt n) = str_int n"
| "str_phase (PStr s) = s"

text \<open>
  \<^verbatim>\<open>str.upper()\<close> on the ASCII letters; every other character is left as it is (the
  priorities of the input are the ASCII words low, medium, high and the like).
\<close>

definition upper_char :: "char \<Rightarrow> char" where
  "upper_char c =
     (case map_of (zip ''abcdefghijklmnopqrstuvwxyz'' ''ABCDEFGHIJKLMNOPQRSTUVWXYZ'') c of
        Some u \<Rightarrow> u
      | None \<Rightarrow> c)"

definition upper :: "string \<Rightarrow> string" where
  "upper s = map upper_char s"

text \<open>\<^verbatim>\<open>sep.join(xs)\<close>.\<close>

fun join :: "string \<Rightarrow> string list \<Rightarrow> string" where
  "join sep [] = []"
| "join sep [x] = x"
| "join sep (x # y # ys) = x @ sep @ join sep (y # ys)"

section \<open>The body renderer\<close>

text \<open>
  \<^verbatim>\<open>format_issue_body\<close>: the f-string with description, effort and priority, then the
  dependency bullets (or \<^verbatim>\<open>None\<close> when the list is empty), the acceptance criteria and
  the phase. Each \<^verbatim>\<open>body += ...\<close> inside a \<^verbatim>\<open>for\<close> is a left fold over the list.
\<close>

definition format_issue_body :: "issue \<Rightarrow> string" where
  "format_issue_body issue =
     (let body = ''## Description\<newline>'' @ description issue
                 @ ''\<newline>\<newline>## Estimated Effort\<newline>'' @ str_int (effort_days issue)
                 @ '' days\<newline>\<newline>## Priority\<newline>'' @ upper (priority issue)
                 @ ''\<newline>\<newline>## Dependencies\<newline>'';
          body = (if dependencies issue \<noteq> []
                  then foldl (\<lambda>body dep. body @ ''- Issue '' @ str_int dep @ ''\<newline>'')
                         body (dependencies issue)
                  else body @ ''None\<newline>'');
          body = body @ ''\<newline>## Acceptance Criteria\<newline>'';
          body = foldl (\<lambda>body ac. body @ ''- '' @ ac @ ''\<newline>'')
                   body (acceptance_criteria issue);
          body = body @ ''\<newline>## Phase\<newline>'' @ str_phase (phase issue) @ ''\<newline>''
      in body)"

section \<open>Ordering\<close>

text \<open>
  Exceptions of the run. \<open>SystemExit n\<close> is \<^verbatim>\<open>sys.exit(n)\<close>; the others are raised by
  the loader and by the comparison of two sort keys.
\<close>

datatype exn =
  SystemExit nat
| FileNotFoundError
| JSONDecodeError string
| KeyError string
| TypeError

text \<open>
  The sort key \<^verbatim>\<open>(0 if x['phase'] == 'cross-cutting' else x['phase'], x['id'])\<close>.
  Its first component is again a number or a string.
\<close>

definition phase_key :: "phase \<Rightarrow> phase" where
  "phase_key p = (if p = PStr cross_cutting then PInt 0 else p)"

definition sort_key :: "issue \<Rightarrow> phase \<times> int" where
  "sort_key x = (phase_key (phase x), issue_id x)"

text \<open>
  Python's \<^verbatim>\<open><\<close> on two key components: numbers by value, strings
  lexicographically by character, a number against a string raises \<^verbatim>\<open>TypeError\<close>.
\<close>

fun phase_lt :: "phase \<Rightarrow> phase \<Rightarrow> exn + bool" where
  "phase_lt (PInt a) (PInt b) = Inr (a < b)"
| "phase_lt (PStr a) (PStr b) = Inr (a < b)"
| "phase_lt (PInt a) (PStr b) = Inl TypeError"
| "phase_lt (PStr a) (PInt b) = Inl TypeError"

text \<open>
  Python's \<^verbatim>\<open><\<close> on two tuples: the first components that are not equal (by
  \<^verbatim>\<open>==\<close>, which never raises and is false between a number and a string) are compared
  with \<^verbatim>\<open><\<close>.
\<close>

definition key_lt :: "phase \<times> int \<Rightarrow> phase \<times> int \<Rightarrow> exn + bool" where
  "key_lt k1 k2 =
     (if fst k1 \<noteq> fst k2 then phase_lt (fst k1) (fst k2) else Inr (snd k1 < snd k2))"

text \<open>
  \<^verbatim>\<open>sorted(xs, key=f)\<close>: a stable sort that compares keys with \<^verbatim>\<open><\<close> only and lets
  the exception of a comparison escape. It is written as an insertion sort. The result of
  a stable sort does not depend on the algorithm, and neither does the exception here:
  two keys of this program raise exactly when one holds a number and the other a string,
  and a sort that never compared across the two kinds could not have placed them.
\<close>

fun insort_key :: "('a \<Rightarrow> phase \<times> int) \<Rightarrow> 'a \<Rightarrow> 'a list \<Rightarrow> exn + 'a list" where
  "insort_key f x [] = Inr [x]"
| "insort_key f x (y # ys) =
     (case key_lt (f y) (f x) of
        Inl e \<Rightarrow> Inl e
      | Inr True \<Rightarrow> (case insort_key f x ys of Inl e \<Rightarrow> Inl e | Inr zs \<Rightarrow> Inr (y # zs))
      | Inr False \<Rightarrow> Inr (x # y # ys))"

fun sorted_key :: "('a \<Rightarrow> phase \<times> int) \<Rightarrow> 'a list \<Rightarrow> exn + 'a list" where
  "sorted_key f [] = Inr []"
| "sorted_key f (x # xs) =
     (case sorted_key f xs of Inl e \<Rightarrow> Inl e | Inr ys \<Rightarrow> insort_key f x ys)"

text \<open>
  The order the sort establishes between two keys: \<open>a\<close> may stand before \<open>b\<close> when
  the comparison \<^verbatim>\<open>b < a\<close> returns false, without raising.
\<close>

definition key_le :: "phase \<times> int \<Rightarrow> phase \<times> int \<Rightarrow> bool" where
  "key_le a b \<longleftrightarrow> key_lt b a = Inr False"

section \<open>The remote tracker and the run\<close>

text \<open>
  What \<^verbatim>\<open>repo.create_issue\<close> does: it returns an issue with a number, or raises
  \<^verbatim>\<open>GithubException\<close> with a status and a message.
\<close>

datatype response = Created int | Raises int string

text \<open>
  The effects of a run, in program order: a printed line, the repository lookup
  \<^verbatim>\<open>g.get_repo(repo_name)\<close> (a request to the tracker, made with the token the client
  was built from), a create-issue request with title, body and labels, and a pause.
\<close>

datatype event =
  Print string
| GetRepo "string option" string
| CreateIssue string string "string list"
| Sleep nat

text \<open>
  The file at a path: absent, not JSON, or a JSON document with or without the key
  \<^verbatim>\<open>issues\<close>.
\<close>

datatype input_file = Absent | Unparsable string | Document "issue list option"

text \<open>
  The world outside the script: the files, the answer of the repository lookup
  (\<open>None\<close> when the repository is found, \<open>Some msg\<close> when \<^verbatim>\<open>GithubException\<close> is
  raised) and the answer to each create-issue request, by the number of requests made
  before it. Any behaviour of the tracker in one run is such a sequence of answers.
\<close>

record world =
  files :: "string \<Rightarrow> input_file"
  get_repo :: "string option \<Rightarrow> string \<Rightarrow> string option"
  create_issue :: "nat \<Rightarrow> response"

text \<open>
  The state of the loop: the dictionary \<^verbatim>\<open>created_issues\<close> (an association list with
  one entry per key), the number of create-issue requests made so far, and the effects so
  far.
\<close>

record state =
  created_issues :: "(int \<times> int) list"
  calls :: nat
  out :: "event list"

definition emit :: "event list \<Rightarrow> state \<Rightarrow> state" where
  "emit es st = st\<lparr>out := out st @ es\<rparr>"

text \<open>The title: prefixed with the phase unless the phase is the marker.\<close>

definition issue_title :: "issue \<Rightarrow> string" where
  "issue_title issue_data =
     (if phase issue_data \<noteq> PStr cross_cutting
      then ''Phase '' @ str_phase (phase issue_data) @ '': '' @ title issue_data
      else title issue_data)"

text \<open>
  The body that is submitted: the rendered body and, when the item has dependencies, the
  heading \<^verbatim>\<open>Related Issues\<close> with one line for each dependency found in
  \<^verbatim>\<open>created_issues\<close>.
\<close>

definition issue_body :: "(int \<times> int) list \<Rightarrow> issue \<Rightarrow> string" where
  "issue_body created issue_data =
     (let body = format_issue_body issue_data
      in if dependencies issue_data \<noteq> []
         then foldl (\<lambda>body dep_id.
                       case map_of created dep_id of
                         Some issue_number \<Rightarrow>
                           body @ ''- Depends on #'' @ str_int issue_number @ ''\<newline>''
                       | None \<Rightarrow> body)
                (body @ ''\<newline>## Related Issues\<newline>'') (dependencies issue_data)
         else body)"

text \<open>
  One pass of the \<^verbatim>\<open>for\<close> loop. In a dry run the item is only printed. Otherwise one
  create-issue request is made; on success the number is stored under the item's
  identifier and the script sleeps 1 second; on \<^verbatim>\<open>GithubException\<close> the error is
  printed and, when the status is 403, the script sleeps 60 seconds. The check mark and
  the cross of the two messages are written as their UTF-8 bytes.
\<close>

definition process_issue :: "world \<Rightarrow> bool \<Rightarrow> state \<Rightarrow> issue \<Rightarrow> state" where
  "process_issue w dry st issue_data =
     (let ttl = issue_title issue_data;
          body = issue_body (created_issues st) issue_data;
          lbls = labels issue_data
      in if dry
         then emit [Print (''Would create: ['' @ str_int (issue_id issue_data) @ ''] '' @ ttl),
                    Print (''  Labels: '' @ join '', '' lbls),
                    Print (''  Priority: '' @ priority issue_data),
                    Print ''''] st
         else (case create_issue w (calls st) of
                 Created number \<Rightarrow>
                   emit [Print (''Creating: ['' @ str_int (issue_id issue_data) @ ''] '' @ ttl),
                         CreateIssue ttl body lbls,
                         Print ([CHR '' '', CHR '' '', CHR 0xE2, CHR 0x9C, CHR 0x93]
                                @ '' Created issue #'' @ str_int number),
                         Sleep 1]
                     (st\<lparr>created_issues :=
                           AList.update (issue_id issue_data) number (created_issues st),
                         calls := Suc (calls st)\<rparr>)
               | Raises status msg \<Rightarrow>
                   emit ([Print (''Creating: ['' @ str_int (issue_id issue_data) @ ''] '' @ ttl),
                          CreateIssue ttl body lbls,
                          Print ([CHR '' '', CHR '' '', CHR 0xE2, CHR 0x9C, CHR 0x97]
                                 @ '' Error creating issue: '' @ msg)]
                         @ (if status = 403
                            then [Print ''  Rate limit may be exceeded. Waiting 60 seconds...'',
                                  Sleep 60]
                            else []))
                     (st\<lparr>calls := Suc (calls st)\<rparr>)))"

fun run_loop :: "world \<Rightarrow> bool \<Rightarrow> state \<Rightarrow> issue list \<Rightarrow> state" where
  "run_loop w dry st [] = st"
| "run_loop w dry st (issue_data # rest) = run_loop w dry (process_issue w dry st issue_data) rest"

text \<open>
  \<^verbatim>\<open>create_github_issues\<close>: the repository lookup (exit 1 when it raises), the sort,
  the loop and the closing lines. The result is the list of effects and how the function
  ended.
\<close>

definition create_github_issues ::
  "world \<Rightarrow> string option \<Rightarrow> string \<Rightarrow> issue list \<Rightarrow> bool \<Rightarrow> event list \<times> (exn + unit)" where
  "create_github_issues w tok repo_name issues dry =
     (case get_repo w tok repo_name of
        Some e \<Rightarrow>
          ([GetRepo tok repo_name, Print (''Error accessing repository: '' @ e)],
           Inl (SystemExit 1))
      | None \<Rightarrow>
          (let connected = [GetRepo tok repo_name,
                            Print (''Connected to repository: '' @ repo_name)]
           in case sorted_key sort_key issues of
                Inl e \<Rightarrow> (connected, Inl e)
              | Inr issues_sorted \<Rightarrow>
                  (let st = run_loop w dry
                              \<lparr>created_issues = [], calls = 0,
                               out = connected
                                 @ [Print (''\<newline>Will create ''
                                           @ str_int (int (length issues_sorted)) @ '' issues''),
                                    Print (if dry
                                           then ''DRY RUN MODE - No issues will be created\<newline>''
                                           else '''')]\<rparr>
                              issues_sorted
                   in (out st
                       @ [Print (''\<newline>''
                                 @ (if dry then ''Dry run complete'' else ''Issue creation complete'')
                                 @ ''!'')]
                       @ (if \<not> dry
                          then [Print (''Created '' @ str_int (int (length (created_issues st)))
                                       @ '' issues''),
                                Print (''View at: https://github.com/'' @ repo_name @ ''/issues'')]
                          else []),
                       Inr ()))))"

section \<open>The command line\<close>






section \<open>Observations on a run\<close>

text \<open>
  The create-issue requests among the effects of a run, in order, and the state in which
  the loop starts when nothing has been printed yet.
\<close>

fun is_request :: "event \<Rightarrow> bool" where
  "is_request (CreateIssue t b l) = True"
| "is_request e = False"

definition requests :: "event list \<Rightarrow> event list" where
  "requests es = filter is_request es"

definition loop_start :: state where
  "loop_start = \<lparr>created_issues = [], calls = 0, out = []\<rparr>"



section \<open>Example inputs\<close>

text \<open>
  Two items in the shape of the input file: a cross-cutting item without dependencies
  and a phase 1 item that depends on it and on an identifier that no item has.
\<close>

definition item_a :: issue where
  "item_a = \<lparr>issue_id = 1, title = ''Core'', description = ''Set up'', effort_days = 2,
     priority = ''high'', phase = PStr ''cross-cutting'', dependencies = [],
     acceptance_criteria = [''builds'', ''tests pass''], labels = [''infra'', ''p0'']\<rparr>"

definition item_b :: issue where
  "item_b = \<lparr>issue_id = 2, title = ''API'', description = ''Expose'', effort_days = 3,
     priority = ''low'', phase = PInt 1, dependencies = [1, 7],
     acceptance_criteria = [''documented''], labels = [''api'']\<rparr>"

text \<open>An item of phase 0 and an item whose phase is another string.\<close>

definition item_zero :: issue where
  "item_zero = \<lparr>issue_id = 0, title = ''Prep'', description = ''Plan'', effort_days = 1,
     priority = ''medium'', phase = PInt 0, dependencies = [],
     acceptance_criteria = [], labels = []\<rparr>"

definition item_beta :: issue where
  "item_beta = \<lparr>issue_id = 3, title = ''Late'', description = ''Polish'', effort_days = 1,
     priority = ''low'', phase = PStr ''beta'', dependencies = [],
     acceptance_criteria = [], labels = []\<rparr>"

text \<open>
  A world in which the input file holds the two items, the repository is found and the
  tracker numbers the issues from 100; and the same world with a tracker that answers the
  first request with status 403.
\<close>

definition example_world :: world where
  "example_world =
     \<lparr>files = (\<lambda>p. if p = ''issues.json'' then Document (Some [item_b, item_a]) else Absent),
      get_repo = (\<lambda>tok r. None),
      create_issue = (\<lambda>k. Created (100 + int k))\<rparr>"

definition limited_world :: world where
  "limited_world = example_world\<lparr>create_issue := (\<lambda>k. if k = 0 then Raises 403 ''rate limit''
                                                    else Created (100 + int k))\<rparr>"




section \<open>Properties of the renderer\<close>

lemma foldl_append_lines:
  "foldl (\<lambda>body x. body @ f x) body xs = body @ concat (map f xs)"
  by (induction xs arbitrary: body) simp_all

text \<open>The body, section by section.\<close>

lemma format_issue_body_sections:
  "format_issue_body issue =
     ''## Description\<newline>'' @ description issue
     @ ''\<newline>\<newline>## Estimated Effort\<newline>'' @ str_int (effort_days issue)
     @ '' days\<newline>\<newline>## Priority\<newline>'' @ upper (priority issue)
     @ ''\<newline>\<newline>## Dependencies\<newline>''
     @ (if dependencies issue \<noteq> []
        then concat (map (\<lambda>dep. ''- Issue '' @ str_int dep @ ''\<newline>'') (dependencies issue))
        else ''None\<newline>'')
     @ ''\<newline>## Acceptance Criteria\<newline>''
     @ concat (map (\<lambda>ac. ''- '' @ ac @ ''\<newline>'') (acceptance_criteria issue))
     @ ''\<newline>## Phase\<newline>'' @ str_phase (phase issue) @ ''\<newline>''"
  unfolding format_issue_body_def Let_def
  by (simp only: foldl_append_lines append_assoc if_distrib [of "\<lambda>b. b @ _"] split: if_splits)
    simp

lemma sublist_concat_member:
  assumes "x \<in> set xs"
  shows "sublist (f x) (concat (map f xs))"
proof -
  from assms obtain as bs where "xs = as @ x # bs"
    by (auto dest: split_list)
  then have "concat (map f xs) = concat (map f as) @ f x @ concat (map f bs)"
    by simp
  then show ?thesis
    unfolding sublist_def by blast
qed

lemma sublist_inner: "sublist xs (a @ xs @ b)"
  by (rule sublist_appendI)

lemma sublist_in_prefix: "sublist xs ys \<Longrightarrow> sublist xs (ys @ zs)"
  unfolding sublist_def by (metis append.assoc)

lemma sublist_in_suffix: "sublist xs ys \<Longrightarrow> sublist xs (zs @ ys)"
  unfolding sublist_def by (metis append.assoc)

text \<open>
  Claim C7. The rendered body of any item contains the item's description, the decimal
  text of its effort value and each of its acceptance criteria, character for character.
\<close>

theorem body_contains_fields:
  "sublist (description issue) (format_issue_body issue) \<and>
   sublist (str_int (effort_days issue)) (format_issue_body issue) \<and>
   (\<forall>ac \<in> set (acceptance_criteria issue). sublist ac (format_issue_body issue))"
proof (intro conjI ballI)
  show "sublist (description issue) (format_issue_body issue)"
    by (subst format_issue_body_sections) (rule sublist_appendI)
  show "sublist (str_int (effort_days issue)) (format_issue_body issue)"
    by (subst format_issue_body_sections)
      (intro sublist_in_suffix sublist_inner | rule sublist_appendI)+
next
  fix ac
  assume "ac \<in> set (acceptance_criteria issue)"
  then have "sublist (''- '' @ ac @ ''\<newline>'')
      (concat (map (\<lambda>ac. ''- '' @ ac @ ''\<newline>'') (acceptance_criteria issue)))"
    by (rule sublist_concat_member)
  moreover have "sublist ac (''- '' @ ac @ ''\<newline>'')"
    by (rule sublist_appendI)
  ultimately have "sublist ac
      (concat (map (\<lambda>ac. ''- '' @ ac @ ''\<newline>'') (acceptance_criteria issue)))"
    by (rule sublist_order.order_trans [rotated])
  then show "sublist ac (format_issue_body issue)"
    by (subst format_issue_body_sections)
      (intro sublist_in_suffix sublist_in_prefix)
qed

theorem body_contains_fields_witness:
  "sublist ''Set up'' (format_issue_body item_a) \<and>
   sublist ''2'' (format_issue_body item_a) \<and>
   sublist ''builds'' (format_issue_body item_a) \<and>
   sublist ''tests pass'' (format_issue_body item_a)"
  using body_contains_fields [of item_a]
  by (simp add: item_a_def str_int_def str_nat.simps)

text \<open>
  Claim C8. When the dependency list of an item is empty, the text between the
  Dependencies heading and the next heading is exactly the line \<^verbatim>\<open>None\<close>: there is no
  bullet. Nothing is appended to such a body before it is submitted.
\<close>

theorem empty_dependencies_render_none:
  assumes "dependencies issue = []"
  shows "format_issue_body issue =
           ''## Description\<newline>'' @ description issue
           @ ''\<newline>\<newline>## Estimated Effort\<newline>'' @ str_int (effort_days issue)
           @ '' days\<newline>\<newline>## Priority\<newline>'' @ upper (priority issue)
           @ ''\<newline>\<newline>## Dependencies\<newline>None\<newline>\<newline>## Acceptance Criteria\<newline>''
           @ concat (map (\<lambda>ac. ''- '' @ ac @ ''\<newline>'') (acceptance_criteria issue))
           @ ''\<newline>## Phase\<newline>'' @ str_phase (phase issue) @ ''\<newline>''
         \<and> issue_body created issue = format_issue_body issue"
proof
  show "format_issue_body issue =
           ''## Description\<newline>'' @ description issue
           @ ''\<newline>\<newline>## Estimated Effort\<newline>'' @ str_int (effort_days issue)
           @ '' days\<newline>\<newline>## Priority\<newline>'' @ upper (priority issue)
           @ ''\<newline>\<newline>## Dependencies\<newline>None\<newline>\<newline>## Acceptance Criteria\<newline>''
           @ concat (map (\<lambda>ac. ''- '' @ ac @ ''\<newline>'') (acceptance_criteria issue))
           @ ''\<newline>## Phase\<newline>'' @ str_phase (phase issue) @ ''\<newline>''"
    using assms by (simp add: format_issue_body_sections)
  show "issue_body created issue = format_issue_body issue"
    using assms by (simp add: issue_body_def)
qed

theorem empty_dependencies_render_none_witness:
  "dependencies item_a = [] \<and>
   format_issue_body item_a =
     ''## Description\<newline>Set up\<newline>\<newline>## Estimated Effort\<newline>2 days\<newline>\<newline>## Priority\<newline>HIGH\<newline>\<newline>## Dependencies\<newline>None\<newline>\<newline>## Acceptance Criteria\<newline>- builds\<newline>- tests pass\<newline>\<newline>## Phase\<newline>cross-cutting\<newline>'' \<and>
   issue_body [] item_a = format_issue_body item_a"
proof -
  have d: "dependencies item_a = []"
    by (simp add: item_a_def)
  have u: "upper ''high'' = ''HIGH''"
    by (simp add: upper_def upper_char_def)
  have e: "str_int 2 = ''2''"
    by (simp add: str_int_def str_nat.simps)
  show ?thesis
    using empty_dependencies_render_none [OF d, of "[]"] u e
    by (simp add: item_a_def)
qed


lemma upper_example: "upper ''high'' = ''HIGH'' \<and> upper ''Medium-1'' = ''MEDIUM-1''"
  by (simp add: upper_def upper_char_def)

section \<open>Properties of the ordering\<close>

lemma key_lt_error: "key_lt a b = Inl e \<Longrightarrow> e = TypeError"
  by (cases "fst a"; cases "fst b") (auto simp: key_lt_def split: if_splits)

lemma key_le_cases:
  "key_le (p, i) (q, j) \<longleftrightarrow>
     (case (p, q) of
        (PInt m, PInt n) \<Rightarrow> m < n \<or> (m = n \<and> i \<le> j)
      | (PStr s, PStr t) \<Rightarrow> s < t \<or> (s = t \<and> i \<le> j)
      | _ \<Rightarrow> False)"
  by (cases p; cases q) (auto simp: key_le_def key_lt_def)

lemma key_le_trans: "key_le a b \<Longrightarrow> key_le b c \<Longrightarrow> key_le a c"
  by (cases a; cases b; cases c) (auto simp: key_le_cases split: phase.splits)

lemma key_lt_True_le: "key_lt a b = Inr True \<Longrightarrow> key_le a b"
  by (cases a; cases b) (auto simp: key_le_cases key_lt_def split: phase.splits if_splits
      elim: phase_lt.elims)

lemma insort_key_mset:
  "insort_key f x ys = Inr zs \<Longrightarrow> mset zs = add_mset x (mset ys)"
proof (induction ys arbitrary: zs)
  case Nil
  then show ?case by auto
next
  case (Cons y ys)
  then show ?case
    by (auto split: sum.splits bool.splits)
qed

lemma insort_key_sorted:
  assumes "sorted_wrt (\<lambda>a b. key_le (f a) (f b)) ys" and "insort_key f x ys = Inr zs"
  shows "sorted_wrt (\<lambda>a b. key_le (f a) (f b)) zs"
  using assms
proof (induction ys arbitrary: zs)
  case Nil
  then show ?case by auto
next
  case (Cons y ys)
  show ?case
  proof (cases "key_lt (f y) (f x)")
    case (Inl e)
    with Cons.prems show ?thesis by simp
  next
    case (Inr b)
    show ?thesis
    proof (cases b)
      case True
      with Inr Cons.prems obtain zs' where
        zs': "insort_key f x ys = Inr zs'" and zs: "zs = y # zs'"
        by (auto split: sum.splits)
      from Cons.prems(1) have "sorted_wrt (\<lambda>a b. key_le (f a) (f b)) ys"
        by simp
      then have s: "sorted_wrt (\<lambda>a b. key_le (f a) (f b)) zs'"
        using zs' by (rule Cons.IH)
      have "set zs' = insert x (set ys)"
        using insort_key_mset [OF zs'] by (metis set_mset_add_mset_insert set_mset_mset)
      moreover have "key_le (f y) (f x)"
        using Inr True by (simp add: key_lt_True_le)
      ultimately show ?thesis
        using Cons.prems(1) s zs by auto
    next
      case False
      with Inr Cons.prems have zs: "zs = x # y # ys"
        by simp
      have xy: "key_le (f x) (f y)"
        using Inr False by (simp add: key_le_def)
      have "\<forall>z \<in> set ys. key_le (f x) (f z)"
        using Cons.prems(1) xy by (auto intro: key_le_trans)
      then show ?thesis
        using Cons.prems(1) xy zs by simp
    qed
  qed
qed

lemma sorted_key_mset: "sorted_key f xs = Inr ys \<Longrightarrow> mset ys = mset xs"
proof (induction xs arbitrary: ys)
  case Nil
  then show ?case by simp
next
  case (Cons x xs)
  then show ?case
    by (auto split: sum.splits dest: insort_key_mset)
qed

lemma sorted_key_sorted:
  "sorted_key f xs = Inr ys \<Longrightarrow> sorted_wrt (\<lambda>a b. key_le (f a) (f b)) ys"
proof (induction xs arbitrary: ys)
  case Nil
  then show ?case by simp
next
  case (Cons x xs)
  then show ?case
    by (auto split: sum.splits intro: insort_key_sorted)
qed

lemma insort_key_error: "insort_key f x ys = Inl e \<Longrightarrow> e = TypeError"
  by (induction ys) (auto split: sum.splits bool.splits dest: key_lt_error)

lemma sorted_key_error: "sorted_key f xs = Inl e \<Longrightarrow> e = TypeError"
  by (induction xs) (auto split: sum.splits dest: insort_key_error)

lemma insort_key_returns:
  "\<forall>y \<in> set (x # ys). \<exists>n. fst (f y) = PInt n \<Longrightarrow> \<exists>zs. insort_key f x ys = Inr zs"
proof (induction ys)
  case Nil
  then show ?case by simp
next
  case (Cons y ys)
  then obtain zs where zs: "insort_key f x ys = Inr zs"
    by auto
  from Cons.prems obtain m n where "fst (f y) = PInt m" "fst (f x) = PInt n"
    by auto
  then obtain b where "key_lt (f y) (f x) = Inr b"
    by (cases "m = n") (simp_all add: key_lt_def)
  with zs show ?case
    by (cases b) auto
qed

lemma sorted_key_returns:
  "\<forall>y \<in> set xs. \<exists>n. fst (f y) = PInt n \<Longrightarrow> \<exists>ys. sorted_key f xs = Inr ys"
proof (induction xs)
  case Nil
  then show ?case by simp
next
  case (Cons x xs)
  then obtain ys where ys: "sorted_key f xs = Inr ys"
    by auto
  then have "set ys = set xs"
    by (metis sorted_key_mset set_mset_mset)
  with Cons.prems have "\<forall>y \<in> set (x # ys). \<exists>n. fst (f y) = PInt n"
    by simp
  then obtain zs where "insort_key f x ys = Inr zs"
    using insort_key_returns [of x ys f] by blast
  with ys show ?case by simp
qed

lemma sorted_wrt_related:
  "sorted_wrt P xs \<Longrightarrow> x \<in> set xs \<Longrightarrow> y \<in> set xs \<Longrightarrow> x \<noteq> y \<Longrightarrow> P x y \<or> P y x"
  by (induction xs) auto

lemma sorted_key_same_kind:
  assumes "sorted_key f xs = Inr ys" and "x \<in> set xs" and "y \<in> set xs"
    and "fst (f x) = PInt m" and "fst (f y) = PStr s"
  shows False
proof -
  have set: "set ys = set xs"
    using assms(1) by (metis sorted_key_mset set_mset_mset)
  have "x \<noteq> y"
    using assms(4,5) by auto
  then have "key_le (f x) (f y) \<or> key_le (f y) (f x)"
    using sorted_wrt_related [OF sorted_key_sorted [OF assms(1)], of x y] assms(2,3) set
    by simp
  then show False
    using assms(4,5) by (cases "f x"; cases "f y") (auto simp: key_le_cases)
qed

lemma sort_key_fst_int:
  "phase x = PStr cross_cutting \<or> (\<exists>n. phase x = PInt n) \<Longrightarrow> \<exists>n. fst (sort_key x) = PInt n"
  by (auto simp: sort_key_def phase_key_def)

text \<open>
  Claim C2 as stated fails: the marker is given the key 0, so an item of phase 0 with a
  smaller identifier is placed before a cross-cutting item (and an item of a negative
  phase before every cross-cutting item).
\<close>

theorem sort_order_counterexample:
  "sorted_key sort_key [item_a, item_zero] = Inr [item_zero, item_a] \<and>
   phase item_zero = PInt 0 \<and> phase item_a = PStr cross_cutting"
  by (simp add: item_a_def item_zero_def sort_key_def phase_key_def key_lt_def cross_cutting_def)

text \<open>
  Claim C2, amended. When every numbered phase is at least 1: the sort returns for every
  collection whose only string phase is the marker; and whenever it returns, the result
  is a rearrangement of the input in which every cross-cutting item stands before every
  item of a numbered phase and any two items of the same phase stand in ascending order
  of identifier.
\<close>

theorem sort_order:
  assumes "\<forall>x \<in> set issues. \<forall>n. phase x = PInt n \<longrightarrow> 1 \<le> n"
  shows "((\<forall>x \<in> set issues. \<forall>s. phase x = PStr s \<longrightarrow> s = cross_cutting) \<longrightarrow>
            (\<exists>ss. sorted_key sort_key issues = Inr ss)) \<and>
         (\<forall>ss. sorted_key sort_key issues = Inr ss \<longrightarrow>
            mset ss = mset issues \<and>
            (\<forall>i j. i < length ss \<and> j < length ss \<and> phase (ss ! i) = PStr cross_cutting \<and>
                   (\<exists>n. phase (ss ! j) = PInt n) \<longrightarrow> i < j) \<and>
            (\<forall>i j. i < j \<and> j < length ss \<and> phase (ss ! i) = phase (ss ! j) \<longrightarrow>
                   issue_id (ss ! i) \<le> issue_id (ss ! j)))"
proof (intro conjI impI allI)
  assume only: "\<forall>x \<in> set issues. \<forall>s. phase x = PStr s \<longrightarrow> s = cross_cutting"
  have "\<forall>x \<in> set issues. \<exists>n. fst (sort_key x) = PInt n"
  proof
    fix x assume "x \<in> set issues"
    with only have "phase x = PStr cross_cutting \<or> (\<exists>n. phase x = PInt n)"
      by (cases "phase x") auto
    then show "\<exists>n. fst (sort_key x) = PInt n"
      by (rule sort_key_fst_int)
  qed
  then show "\<exists>ss. sorted_key sort_key issues = Inr ss"
    by (rule sorted_key_returns)
next
  fix ss assume "sorted_key sort_key issues = Inr ss"
  then show "mset ss = mset issues"
    by (rule sorted_key_mset)
next
  fix ss i j
  assume ss: "sorted_key sort_key issues = Inr ss"
    and ij: "i < length ss \<and> j < length ss \<and> phase (ss ! i) = PStr cross_cutting \<and>
             (\<exists>n. phase (ss ! j) = PInt n)"
  then obtain n where n: "phase (ss ! j) = PInt n"
    by blast
  have "ss ! j \<in> set issues"
    using ij sorted_key_mset [OF ss] by (metis nth_mem set_mset_mset)
  with assms n have pos: "1 \<le> n"
    by blast
  have sorted: "sorted_wrt (\<lambda>a b. key_le (sort_key a) (sort_key b)) ss"
    using ss by (rule sorted_key_sorted)
  show "i < j"
  proof (rule ccontr)
    assume "\<not> i < j"
    moreover have "i \<noteq> j"
      using ij n by auto
    ultimately have "j < i"
      by simp
    with sorted ij have "key_le (sort_key (ss ! j)) (sort_key (ss ! i))"
      by (simp add: sorted_wrt_iff_nth_less)
    with ij n pos show False
      by (simp add: sort_key_def phase_key_def key_le_cases cross_cutting_def)
  qed
next
  fix ss i j
  assume ss: "sorted_key sort_key issues = Inr ss"
    and ij: "i < j \<and> j < length ss \<and> phase (ss ! i) = phase (ss ! j)"
  have "sorted_wrt (\<lambda>a b. key_le (sort_key a) (sort_key b)) ss"
    using ss by (rule sorted_key_sorted)
  with ij have "key_le (sort_key (ss ! i)) (sort_key (ss ! j))"
    by (simp add: sorted_wrt_iff_nth_less)
  with ij show "issue_id (ss ! i) \<le> issue_id (ss ! j)"
    by (cases "phase_key (phase (ss ! j))") (simp_all add: sort_key_def key_le_cases)
qed

theorem sort_order_witness:
  "sorted_key sort_key [item_b, item_a] = Inr [item_a, item_b]"
proof -
  have h: "\<forall>x \<in> set [item_b, item_a]. \<forall>n. phase x = PInt n \<longrightarrow> 1 \<le> n"
    by (simp add: item_a_def item_b_def)
  have c: "\<forall>x \<in> set [item_b, item_a]. \<forall>s. phase x = PStr s \<longrightarrow> s = cross_cutting"
    by (simp add: item_a_def item_b_def cross_cutting_def)
  from sort_order [OF h] c obtain ss where ss: "sorted_key sort_key [item_b, item_a] = Inr ss"
    by blast
  then show ?thesis
    by (simp add: item_a_def item_b_def sort_key_def phase_key_def key_lt_def cross_cutting_def)
qed

text \<open>
  Claim C9. When the collection holds an item whose phase is a string other than the
  marker and an item whose phase is a number or the marker (key 0), the sort raises
  \<^verbatim>\<open>TypeError\<close>. The run then ends with that exception right after the repository
  lookup, before any item is printed or submitted (or with exit 1 when the lookup itself
  failed).
\<close>

theorem mixed_phases_raise:
  assumes "x \<in> set issues" and "phase x = PStr s" and "s \<noteq> cross_cutting"
    and "y \<in> set issues" and "(\<exists>n. phase y = PInt n) \<or> phase y = PStr cross_cutting"
  shows "sorted_key sort_key issues = Inl TypeError \<and>
         create_github_issues w tok repo_name issues dry =
           (case get_repo w tok repo_name of
              Some e \<Rightarrow>
                ([GetRepo tok repo_name, Print (''Error accessing repository: '' @ e)],
                 Inl (SystemExit 1))
            | None \<Rightarrow>
                ([GetRepo tok repo_name, Print (''Connected to repository: '' @ repo_name)],
                 Inl TypeError))"
proof -
  have kx: "fst (sort_key x) = PStr s"
    using assms(2,3) by (simp add: sort_key_def phase_key_def)
  obtain n where ky: "fst (sort_key y) = PInt n"
    using assms(5) sort_key_fst_int by blast
  have "sorted_key sort_key issues \<noteq> Inr ss" for ss
    using sorted_key_same_kind [OF _ assms(4) assms(1) ky kx] by blast
  then obtain e where "sorted_key sort_key issues = Inl e"
    by (cases "sorted_key sort_key issues") auto
  then have raise: "sorted_key sort_key issues = Inl TypeError"
    using sorted_key_error by blast
  then show ?thesis
    by (simp add: create_github_issues_def split: option.splits)
qed

theorem mixed_phases_raise_witness:
  "sorted_key sort_key [item_b, item_beta] = Inl TypeError \<and>
   create_github_issues \<lparr>files = (\<lambda>p. Absent), get_repo = (\<lambda>t r. None),
       create_issue = (\<lambda>k. Created (100 + int k))\<rparr> (Some ''t'') ''o/r'' [item_b, item_beta] False =
     ([GetRepo (Some ''t'') ''o/r'', Print ''Connected to repository: o/r''], Inl TypeError)"
proof -
  have "item_beta \<in> set [item_b, item_beta]" "phase item_beta = PStr ''beta''"
    "''beta'' \<noteq> cross_cutting" "item_b \<in> set [item_b, item_beta]"
    "(\<exists>n. phase item_b = PInt n) \<or> phase item_b = PStr cross_cutting"
    by (simp_all add: item_b_def item_beta_def cross_cutting_def)
  from mixed_phases_raise [OF this] show ?thesis
    by simp
qed

section \<open>Properties of the loop\<close>

lemma process_issue_dry:
  "process_issue w True st x =
     st\<lparr>out := out st @
        [Print (''Would create: ['' @ str_int (issue_id x) @ ''] '' @ issue_title x),
         Print (''  Labels: '' @ join '', '' (labels x)),
         Print (''  Priority: '' @ priority x),
         Print '''']\<rparr>"
  by (simp add: process_issue_def emit_def Let_def)

lemma process_issue_created:
  "create_issue w (calls st) = Created n \<Longrightarrow>
   process_issue w False st x =
     st\<lparr>created_issues := AList.update (issue_id x) n (created_issues st),
        calls := Suc (calls st),
        out := out st @
          [Print (''Creating: ['' @ str_int (issue_id x) @ ''] '' @ issue_title x),
           CreateIssue (issue_title x) (issue_body (created_issues st) x) (labels x),
           Print ([CHR '' '', CHR '' '', CHR 0xE2, CHR 0x9C, CHR 0x93]
                  @ '' Created issue #'' @ str_int n),
           Sleep 1]\<rparr>"
  by (simp add: process_issue_def emit_def Let_def)

lemma process_issue_raises:
  "create_issue w (calls st) = Raises status msg \<Longrightarrow>
   process_issue w False st x =
     st\<lparr>calls := Suc (calls st),
        out := out st @
          [Print (''Creating: ['' @ str_int (issue_id x) @ ''] '' @ issue_title x),
           CreateIssue (issue_title x) (issue_body (created_issues st) x) (labels x),
           Print ([CHR '' '', CHR '' '', CHR 0xE2, CHR 0x9C, CHR 0x97]
                  @ '' Error creating issue: '' @ msg)]
          @ (if status = 403
             then [Print ''  Rate limit may be exceeded. Waiting 60 seconds...'', Sleep 60]
             else [])\<rparr>"
  by (simp add: process_issue_def emit_def Let_def)

lemma process_issue_calls: "calls (process_issue w False st x) = Suc (calls st)"
  by (cases "create_issue w (calls st)")
    (simp_all add: process_issue_created process_issue_raises)

lemma process_issue_requests:
  "requests (out (process_issue w False st x)) =
     requests (out st) @ [CreateIssue (issue_title x) (issue_body (created_issues st) x) (labels x)]"
  by (cases "create_issue w (calls st)")
    (simp_all add: process_issue_created process_issue_raises requests_def)

lemma process_issue_other_key:
  "k \<noteq> issue_id x \<Longrightarrow>
   map_of (created_issues (process_issue w dry st x)) k = map_of (created_issues st) k"
  by (cases dry; cases "create_issue w (calls st)")
    (simp_all add: process_issue_dry process_issue_created process_issue_raises update_conv')

lemma run_loop_append:
  "run_loop w dry st (xs @ ys) = run_loop w dry (run_loop w dry st xs) ys"
  by (induction xs arbitrary: st) simp_all

lemma run_loop_calls: "calls (run_loop w False st xs) = calls st + length xs"
  by (induction xs arbitrary: st) (simp_all add: process_issue_calls)

lemma run_loop_requests_length:
  "length (requests (out (run_loop w False st xs))) = length (requests (out st)) + length xs"
  by (induction xs arbitrary: st) (simp_all add: process_issue_requests)

lemma run_loop_requests_prefix:
  "\<exists>rs. requests (out (run_loop w False st xs)) = requests (out st) @ rs"
proof (induction xs arbitrary: st)
  case Nil
  then show ?case by simp
next
  case (Cons x xs)
  from Cons.IH [of "process_issue w False st x"] show ?case
    by (auto simp: process_issue_requests)
qed

lemma run_loop_other_keys:
  "k \<notin> issue_id ` set xs \<Longrightarrow>
   map_of (created_issues (run_loop w dry st xs)) k = map_of (created_issues st) k"
  by (induction xs arbitrary: st) (simp_all add: process_issue_other_key)

text \<open>The request of the item that stands after \<open>pre\<close> in the loop.\<close>

lemma run_loop_request_at:
  "requests (out (run_loop w False st (pre @ x # post))) ! (length (requests (out st)) + length pre) =
     CreateIssue (issue_title x) (issue_body (created_issues (run_loop w False st pre)) x) (labels x)"
proof -
  let ?st1 = "run_loop w False st pre"
  let ?st2 = "process_issue w False ?st1 x"
  obtain rs where rs: "requests (out (run_loop w False ?st2 post)) = requests (out ?st2) @ rs"
    using run_loop_requests_prefix by blast
  have len: "length (requests (out ?st1)) = length (requests (out st)) + length pre"
    by (rule run_loop_requests_length)
  have "run_loop w False st (pre @ x # post) = run_loop w False ?st2 post"
    by (simp add: run_loop_append)
  then have "requests (out (run_loop w False st (pre @ x # post))) =
      requests (out ?st1)
      @ CreateIssue (issue_title x) (issue_body (created_issues ?st1) x) (labels x) # rs"
    using rs by (simp add: process_issue_requests)
  then show ?thesis
    using len by (simp add: nth_append)
qed

lemma process_issue_same_dictionary:
  assumes "created_issues st = created_issues st'" and "calls st = calls st'"
  shows "created_issues (process_issue w dry st x) = created_issues (process_issue w dry st' x) \<and>
         calls (process_issue w dry st x) = calls (process_issue w dry st' x)"
proof (cases dry)
  case True
  with assms show ?thesis
    by (simp add: process_issue_dry)
next
  case False
  with assms show ?thesis
    by (cases "create_issue w (calls st')")
      (simp_all add: process_issue_created process_issue_raises)
qed

lemma run_loop_same_dictionary:
  "created_issues st = created_issues st' \<Longrightarrow> calls st = calls st' \<Longrightarrow>
   created_issues (run_loop w dry st xs) = created_issues (run_loop w dry st' xs)"
proof (induction xs arbitrary: st st')
  case Nil
  then show ?case by simp
next
  case (Cons x xs)
  from process_issue_same_dictionary [OF Cons.prems] show ?case
    by (auto intro: Cons.IH)
qed

lemma foldl_related_lines:
  "foldl (\<lambda>body d. case g d of Some n \<Rightarrow> body @ h n | None \<Rightarrow> body) b ds =
     b @ concat (map (\<lambda>d. case g d of Some n \<Rightarrow> h n | None \<Rightarrow> []) ds)"
  by (induction ds arbitrary: b) (simp_all split: option.splits)

lemma issue_body_sections:
  "issue_body created x =
     format_issue_body x
     @ (if dependencies x \<noteq> []
        then ''\<newline>## Related Issues\<newline>''
             @ concat (map (\<lambda>d. case map_of created d of
                                   Some n \<Rightarrow> ''- Depends on #'' @ str_int n @ ''\<newline>''
                                 | None \<Rightarrow> '''') (dependencies x))
        else '''')"
  by (simp add: issue_body_def Let_def foldl_related_lines)

lemma concat_lines_end:
  assumes "\<forall>a \<in> set as. g a = [] \<or> (\<exists>l. g a = l @ [c])"
  shows "\<exists>p. h @ [c] @ concat (map g as) = p @ [c]"
  using assms
proof (induction as rule: rev_induct)
  case Nil
  then show ?case by simp
next
  case (snoc a as)
  then obtain p where p: "h @ [c] @ concat (map g as) = p @ [c]"
    by auto
  from snoc.prems have "g a = [] \<or> (\<exists>l. g a = l @ [c])"
    by simp
  then show ?case
  proof
    assume "g a = []"
    with p show ?thesis by simp
  next
    assume "\<exists>l. g a = l @ [c]"
    then obtain l where "g a = l @ [c]" ..
    then have "h @ [c] @ concat (map g (as @ [a])) = (h @ [c] @ concat (map g as) @ l) @ [c]"
      by simp
    then show ?thesis by blast
  qed
qed

lemma issue_body_contains_link:
  assumes "map_of created dep = Some n" and "dep \<in> set (dependencies x)"
  shows "sublist (''\<newline>- Depends on #'' @ str_int n @ ''\<newline>'') (issue_body created x)"
proof -
  let ?g = "\<lambda>d. case map_of created d of
                   Some n \<Rightarrow> ''- Depends on #'' @ str_int n @ ''\<newline>''
                 | None \<Rightarrow> ''''"
  from assms(2) obtain as bs where deps: "dependencies x = as @ dep # bs"
    by (auto dest: split_list)
  have "\<forall>a \<in> set as. ?g a = [] \<or> (\<exists>l. ?g a = l @ [CHR 0x0A])"
    by (auto split: option.splits)
  then obtain p where p:
    "(format_issue_body x @ ''\<newline>## Related Issues'') @ [CHR 0x0A] @ concat (map ?g as) = p @ [CHR 0x0A]"
    using concat_lines_end [of as ?g "CHR 0x0A"] by blast
  have "issue_body created x =
      ((format_issue_body x @ ''\<newline>## Related Issues'') @ [CHR 0x0A] @ concat (map ?g as))
      @ (''- Depends on #'' @ str_int n @ ''\<newline>'') @ concat (map ?g bs)"
    using deps assms(1) by (simp add: issue_body_sections)
  also have "\<dots> = p @ (''\<newline>- Depends on #'' @ str_int n @ ''\<newline>'') @ concat (map ?g bs)"
    by (simp only: p) simp
  finally show ?thesis
    unfolding sublist_def by blast
qed

lemma related_lines_unresolved:
  "g dep = None \<Longrightarrow>
   concat (map (\<lambda>d. case g d of Some n \<Rightarrow> h n | None \<Rightarrow> []) ds) =
   concat (map (\<lambda>d. case g d of Some n \<Rightarrow> h n | None \<Rightarrow> []) (removeAll dep ds))"
  by (induction ds) auto

lemma run_loop_never_created:
  assumes "map_of (created_issues st) dep = None"
    and "\<forall>k<length xs. issue_id (xs ! k) = dep \<longrightarrow>
           (\<exists>status msg. create_issue w (calls st + k) = Raises status msg)"
  shows "map_of (created_issues (run_loop w False st xs)) dep = None"
  using assms
proof (induction xs arbitrary: st)
  case Nil
  then show ?case by simp
next
  case (Cons x xs)
  let ?st = "process_issue w False st x"
  have step: "map_of (created_issues ?st) dep = None"
  proof (cases "issue_id x = dep")
    case True
    with Cons.prems(2) obtain status msg where "create_issue w (calls st) = Raises status msg"
      by fastforce
    then show ?thesis
      using Cons.prems(1) by (simp add: process_issue_raises)
  next
    case False
    then show ?thesis
      using Cons.prems(1) by (simp add: process_issue_other_key)
  qed
  have "\<forall>k<length xs. issue_id (xs ! k) = dep \<longrightarrow>
          (\<exists>status msg. create_issue w (calls ?st + k) = Raises status msg)"
  proof (intro allI impI)
    fix k assume "k < length xs" "issue_id (xs ! k) = dep"
    then have "\<exists>status msg. create_issue w (calls st + Suc k) = Raises status msg"
      using Cons.prems(2) by (metis Suc_less_eq length_Cons nth_Cons_Suc)
    then show "\<exists>status msg. create_issue w (calls ?st + k) = Raises status msg"
      by (simp add: process_issue_calls)
  qed
  with step show ?case
    by (simp add: Cons.IH)
qed

text \<open>A run that passes the lookup and the sort: its requests are those of the loop.\<close>

lemma create_github_issues_loop:
  assumes "get_repo w tok repo_name = None" and "sorted_key sort_key issues = Inr ss"
  shows "\<exists>st0. created_issues st0 = [] \<and> calls st0 = 0 \<and> requests (out st0) = [] \<and>
           requests (fst (create_github_issues w tok repo_name issues False)) =
             requests (out (run_loop w False st0 ss)) \<and>
           snd (create_github_issues w tok repo_name issues dry) = Inr ()"
proof -
  let ?st0 = "\<lparr>created_issues = [], calls = 0,
      out = [GetRepo tok repo_name, Print (''Connected to repository: '' @ repo_name)]
        @ [Print (''\<newline>Will create '' @ str_int (int (length ss)) @ '' issues''), Print '''']\<rparr>"
  have "requests (fst (create_github_issues w tok repo_name issues False)) =
      requests (out (run_loop w False ?st0 ss))"
    using assms by (simp add: create_github_issues_def Let_def requests_def)
  moreover have "snd (create_github_issues w tok repo_name issues dry) = Inr ()"
    using assms by (simp add: create_github_issues_def Let_def)
  moreover have "requests (out ?st0) = []"
    by (simp add: requests_def)
  ultimately show ?thesis
    by (intro exI [of _ ?st0]) simp
qed

section \<open>Failed items and dependency links\<close>

text \<open>
  Claim C4. When the request for an item raises \<^verbatim>\<open>GithubException\<close>, the error is
  printed, the dictionary is left as it was and the loop goes on with the next item. The
  status 403 (the rate limit) adds the notice and a pause of 60 seconds; any other status
  adds nothing. The item is not submitted again: the run makes one request for each item.
  As long as no later item carries the same identifier, the dictionary never gets an
  entry for the failed item.
\<close>

theorem failed_item_abandoned:
  assumes "create_issue w (calls st) = Raises status msg"
  shows "process_issue w False st x =
           st\<lparr>calls := Suc (calls st),
              out := out st @
                [Print (''Creating: ['' @ str_int (issue_id x) @ ''] '' @ issue_title x),
                 CreateIssue (issue_title x) (issue_body (created_issues st) x) (labels x),
                 Print ([CHR '' '', CHR '' '', CHR 0xE2, CHR 0x9C, CHR 0x97]
                        @ '' Error creating issue: '' @ msg)]
                @ (if status = 403
                   then [Print ''  Rate limit may be exceeded. Waiting 60 seconds...'', Sleep 60]
                   else [])\<rparr> \<and>
         run_loop w False st (x # rest) = run_loop w False (process_issue w False st x) rest \<and>
         length (requests (out (run_loop w False st (x # rest)))) =
           length (requests (out st)) + 1 + length rest \<and>
         (issue_id x \<notin> issue_id ` set rest \<longrightarrow>
            map_of (created_issues (run_loop w False st (x # rest))) (issue_id x) =
              map_of (created_issues st) (issue_id x))"
proof (intro conjI impI)
  show "process_issue w False st x =
           st\<lparr>calls := Suc (calls st),
              out := out st @
                [Print (''Creating: ['' @ str_int (issue_id x) @ ''] '' @ issue_title x),
                 CreateIssue (issue_title x) (issue_body (created_issues st) x) (labels x),
                 Print ([CHR '' '', CHR '' '', CHR 0xE2, CHR 0x9C, CHR 0x97]
                        @ '' Error creating issue: '' @ msg)]
                @ (if status = 403
                   then [Print ''  Rate limit may be exceeded. Waiting 60 seconds...'', Sleep 60]
                   else [])\<rparr>"
    using assms by (rule process_issue_raises)
  show "run_loop w False st (x # rest) = run_loop w False (process_issue w False st x) rest"
    by simp
  show "length (requests (out (run_loop w False st (x # rest)))) =
          length (requests (out st)) + 1 + length rest"
    using run_loop_requests_length [of w st "x # rest"] by simp
next
  assume "issue_id x \<notin> issue_id ` set rest"
  then have "map_of (created_issues (run_loop w False st (x # rest))) (issue_id x) =
      map_of (created_issues (process_issue w False st x)) (issue_id x)"
    by (simp add: run_loop_other_keys)
  also have "\<dots> = map_of (created_issues st) (issue_id x)"
    using assms by (simp add: process_issue_raises)
  finally show "map_of (created_issues (run_loop w False st (x # rest))) (issue_id x) =
      map_of (created_issues st) (issue_id x)" .
qed

theorem failed_item_abandoned_witness:
  "create_issue limited_world (calls loop_start) = Raises 403 ''rate limit'' \<and>
   process_issue limited_world False loop_start item_a =
     \<lparr>created_issues = [], calls = 1,
      out = [Print ''Creating: [1] Core'',
             CreateIssue ''Core'' (issue_body [] item_a) [''infra'', ''p0''],
             Print ([CHR '' '', CHR '' '', CHR 0xE2, CHR 0x9C, CHR 0x97]
                    @ '' Error creating issue: rate limit''),
             Print ''  Rate limit may be exceeded. Waiting 60 seconds...'',
             Sleep 60]\<rparr> \<and>
   length (requests (out (run_loop limited_world False loop_start [item_a, item_b]))) = 2 \<and>
   map_of (created_issues (run_loop limited_world False loop_start [item_a, item_b])) 1 = None"
proof -
  have h: "create_issue limited_world (calls loop_start) = Raises 403 ''rate limit''"
    by (simp add: limited_world_def loop_start_def)
  have t: "issue_title item_a = ''Core''" "labels item_a = [''infra'', ''p0'']"
    "issue_id item_a = 1" "issue_id item_b = 2" "str_int 1 = ''1''"
    by (simp_all add: issue_title_def item_a_def item_b_def cross_cutting_def str_int_def
        str_nat.simps)
  note r = failed_item_abandoned [OF h, of item_a "[item_b]"]
  have "process_issue limited_world False loop_start item_a =
     \<lparr>created_issues = [], calls = 1,
      out = [Print ''Creating: [1] Core'',
             CreateIssue ''Core'' (issue_body [] item_a) [''infra'', ''p0''],
             Print ([CHR '' '', CHR '' '', CHR 0xE2, CHR 0x9C, CHR 0x97]
                    @ '' Error creating issue: rate limit''),
             Print ''  Rate limit may be exceeded. Waiting 60 seconds...'',
             Sleep 60]\<rparr>"
    using r [THEN conjunct1] t by (simp add: loop_start_def)
  moreover have
    "length (requests (out (run_loop limited_world False loop_start [item_a, item_b]))) = 2"
    using r [THEN conjunct2, THEN conjunct2, THEN conjunct1]
    by (simp add: loop_start_def requests_def del: run_loop.simps)
  moreover have
    "map_of (created_issues (run_loop limited_world False loop_start [item_a, item_b])) 1 = None"
    using r [THEN conjunct2, THEN conjunct2, THEN conjunct2] t
    by (simp add: loop_start_def del: run_loop.simps)
  ultimately show ?thesis
    using h by simp
qed

text \<open>
  Claim C5. In a run that is not a dry run, let item \<open>d\<close> be submitted before item \<open>x\<close>,
  let its request return the number \<open>n\<close>, and let no item between the two carry the
  identifier of \<open>d\<close> (identifiers are unique in a well-formed input). If \<open>x\<close> lists the
  identifier of \<open>d\<close> among its dependencies, the body submitted for \<open>x\<close> has the line
  \<^verbatim>\<open>- Depends on #n\<close>. Item \<open>d\<close> is item number \<open>length pre\<close> of the sorted
  collection, so its request is request number \<open>length pre\<close>.
\<close>

theorem dependency_link_rendered:
  assumes "get_repo w tok repo_name = None"
    and "sorted_key sort_key issues = Inr (pre @ d # mid @ x # post)"
    and "issue_id d \<in> set (dependencies x)"
    and "issue_id d \<notin> issue_id ` set mid"
    and "create_issue w (length pre) = Created n"
  shows "\<exists>body. requests (fst (create_github_issues w tok repo_name issues False))
                  ! (length pre + 1 + length mid)
                = CreateIssue (issue_title x) body (labels x) \<and>
               sublist (''\<newline>- Depends on #'' @ str_int n @ ''\<newline>'') body"
proof -
  obtain st0 where st0: "created_issues st0 = []" "calls st0 = 0" "requests (out st0) = []"
    and reqs: "requests (fst (create_github_issues w tok repo_name issues False)) =
      requests (out (run_loop w False st0 (pre @ d # mid @ x # post)))"
    using create_github_issues_loop [OF assms(1,2)] by blast
  let ?st1 = "run_loop w False st0 pre"
  let ?st2 = "run_loop w False st0 (pre @ d # mid)"
  have "calls ?st1 = length pre"
    using st0 by (simp add: run_loop_calls)
  with assms(5) have "map_of (created_issues (process_issue w False ?st1 d)) (issue_id d) = Some n"
    by (simp add: process_issue_created update_conv')
  moreover have "?st2 = run_loop w False (process_issue w False ?st1 d) mid"
    by (simp add: run_loop_append)
  ultimately have "map_of (created_issues ?st2) (issue_id d) = Some n"
    using assms(4) by (simp add: run_loop_other_keys)
  then have line: "sublist (''\<newline>- Depends on #'' @ str_int n @ ''\<newline>'')
      (issue_body (created_issues ?st2) x)"
    using assms(3) by (rule issue_body_contains_link)
  have "requests (out (run_loop w False st0 ((pre @ d # mid) @ x # post)))
      ! (length (requests (out st0)) + length (pre @ d # mid)) =
      CreateIssue (issue_title x) (issue_body (created_issues ?st2) x) (labels x)"
    by (rule run_loop_request_at)
  then have "requests (fst (create_github_issues w tok repo_name issues False))
      ! (length pre + 1 + length mid) =
      CreateIssue (issue_title x) (issue_body (created_issues ?st2) x) (labels x)"
    using reqs st0 by simp
  with line show ?thesis
    by blast
qed

theorem dependency_link_rendered_witness:
  "\<exists>body. requests (fst (create_github_issues example_world (Some ''t'') ''o/r''
                           [item_b, item_a] False)) ! 1
            = CreateIssue ''Phase 1: API'' body [''api''] \<and>
          sublist (''\<newline>- Depends on #100\<newline>'') body"
proof -
  have h: "get_repo example_world (Some ''t'') ''o/r'' = None"
    "sorted_key sort_key [item_b, item_a] = Inr ([] @ item_a # [] @ item_b # [])"
    "issue_id item_a \<in> set (dependencies item_b)"
    "issue_id item_a \<notin> issue_id ` set []"
    "create_issue example_world (length ([] :: issue list)) = Created 100"
    by (simp_all add: example_world_def item_a_def item_b_def sort_key_def phase_key_def
        key_lt_def cross_cutting_def)
  have t: "issue_title item_b = ''Phase 1: API''" "labels item_b = [''api'']"
    "str_int 100 = ''100''"
    by (simp_all add: issue_title_def item_b_def cross_cutting_def str_int_def str_nat.simps)
  from dependency_link_rendered [OF h] t show ?thesis
    by (simp del: run_loop.simps)
qed

text \<open>
  Claim C6. Let \<open>x\<close> list the dependency \<open>dep\<close>, and let every item submitted before
  \<open>x\<close> that carries this identifier have failed (there may be none: the dependency comes
  later, or is no item at all). Then the dictionary has no entry for \<open>dep\<close> when \<open>x\<close> is
  reached; \<open>x\<close> is submitted with the Related Issues lines of its other dependencies
  only; the run ends normally; and the rendered body still has the bullet
  \<^verbatim>\<open>- Issue dep\<close> between the Dependencies heading and the next heading. The
  dictionary at that point is the one the loop builds over the items before \<open>x\<close>; it
  does not depend on what has been printed, so it is written from \<open>loop_start\<close>.
\<close>

theorem unresolved_dependency_omitted:
  assumes "get_repo w tok repo_name = None"
    and "sorted_key sort_key issues = Inr (pre @ x # post)"
    and "dep \<in> set (dependencies x)"
    and "\<forall>k<length pre. issue_id (pre ! k) = dep \<longrightarrow>
           (\<exists>status msg. create_issue w k = Raises status msg)"
  shows "map_of (created_issues (run_loop w False loop_start pre)) dep = None \<and>
         requests (fst (create_github_issues w tok repo_name issues False)) ! length pre =
           CreateIssue (issue_title x)
             (format_issue_body x @ ''\<newline>## Related Issues\<newline>''
              @ concat (map (\<lambda>d. case map_of (created_issues (run_loop w False loop_start pre)) d of
                                    Some n \<Rightarrow> ''- Depends on #'' @ str_int n @ ''\<newline>''
                                  | None \<Rightarrow> '''')
                          (removeAll dep (dependencies x))))
             (labels x) \<and>
         snd (create_github_issues w tok repo_name issues False) = Inr () \<and>
         (\<exists>before after. format_issue_body x =
            ''## Description\<newline>'' @ description x
            @ ''\<newline>\<newline>## Estimated Effort\<newline>'' @ str_int (effort_days x)
            @ '' days\<newline>\<newline>## Priority\<newline>'' @ upper (priority x)
            @ ''\<newline>\<newline>## Dependencies\<newline>''
            @ before @ ''- Issue '' @ str_int dep @ ''\<newline>'' @ after
            @ ''\<newline>## Acceptance Criteria\<newline>''
            @ concat (map (\<lambda>ac. ''- '' @ ac @ ''\<newline>'') (acceptance_criteria x))
            @ ''\<newline>## Phase\<newline>'' @ str_phase (phase x) @ ''\<newline>'')"
proof (intro conjI)
  let ?created = "created_issues (run_loop w False loop_start pre)"
  obtain st0 where st0: "created_issues st0 = []" "calls st0 = 0" "requests (out st0) = []"
    and reqs: "requests (fst (create_github_issues w tok repo_name issues False)) =
      requests (out (run_loop w False st0 (pre @ x # post)))"
    and ok: "snd (create_github_issues w tok repo_name issues False) = Inr ()"
    using create_github_issues_loop [OF assms(1,2)] by blast
  show "snd (create_github_issues w tok repo_name issues False) = Inr ()"
    by (rule ok)
  have same: "created_issues (run_loop w False st0 pre) = ?created"
    using st0 by (intro run_loop_same_dictionary) (simp_all add: loop_start_def)
  show none: "map_of ?created dep = None"
    using assms(4) by (intro run_loop_never_created) (simp_all add: loop_start_def)
  have deps: "dependencies x \<noteq> []"
    using assms(3) by auto
  have "requests (out (run_loop w False st0 (pre @ x # post)))
      ! (length (requests (out st0)) + length pre) =
      CreateIssue (issue_title x) (issue_body (created_issues (run_loop w False st0 pre)) x) (labels x)"
    by (rule run_loop_request_at)
  then have "requests (fst (create_github_issues w tok repo_name issues False)) ! length pre =
      CreateIssue (issue_title x) (issue_body ?created x) (labels x)"
    using reqs st0 same by simp
  moreover have "issue_body ?created x =
      format_issue_body x @ ''\<newline>## Related Issues\<newline>''
      @ concat (map (\<lambda>d. case map_of ?created d of
                            Some n \<Rightarrow> ''- Depends on #'' @ str_int n @ ''\<newline>''
                          | None \<Rightarrow> '''')
                  (removeAll dep (dependencies x)))"
    using deps related_lines_unresolved [of "map_of ?created" dep
        "\<lambda>n. ''- Depends on #'' @ str_int n @ ''\<newline>''" "dependencies x", OF none]
    by (simp add: issue_body_sections)
  ultimately show "requests (fst (create_github_issues w tok repo_name issues False)) ! length pre =
      CreateIssue (issue_title x)
        (format_issue_body x @ ''\<newline>## Related Issues\<newline>''
         @ concat (map (\<lambda>d. case map_of ?created d of
                               Some n \<Rightarrow> ''- Depends on #'' @ str_int n @ ''\<newline>''
                             | None \<Rightarrow> '''')
                     (removeAll dep (dependencies x))))
        (labels x)"
    by simp
  from assms(3) obtain as bs where split: "dependencies x = as @ dep # bs"
    by (auto dest: split_list)
  show "\<exists>before after. format_issue_body x =
            ''## Description\<newline>'' @ description x
            @ ''\<newline>\<newline>## Estimated Effort\<newline>'' @ str_int (effort_days x)
            @ '' days\<newline>\<newline>## Priority\<newline>'' @ upper (priority x)
            @ ''\<newline>\<newline>## Dependencies\<newline>''
            @ before @ ''- Issue '' @ str_int dep @ ''\<newline>'' @ after
            @ ''\<newline>## Acceptance Criteria\<newline>''
            @ concat (map (\<lambda>ac. ''- '' @ ac @ ''\<newline>'') (acceptance_criteria x))
            @ ''\<newline>## Phase\<newline>'' @ str_phase (phase x) @ ''\<newline>''"
    by (rule exI [of _ "concat (map (\<lambda>dep. ''- Issue '' @ str_int dep @ ''\<newline>'') as)"],
        rule exI [of _ "concat (map (\<lambda>dep. ''- Issue '' @ str_int dep @ ''\<newline>'') bs)"])
      (simp add: format_issue_body_sections split)
qed

theorem unresolved_dependency_omitted_witness:
  "requests (fst (create_github_issues limited_world (Some ''t'') ''o/r''
                    [item_b, item_a] False)) ! 1 =
     CreateIssue ''Phase 1: API'' (format_issue_body item_b @ ''\<newline>## Related Issues\<newline>'')
       [''api''] \<and>
   snd (create_github_issues limited_world (Some ''t'') ''o/r'' [item_b, item_a] False) = Inr ()"
proof -
  have h: "get_repo limited_world (Some ''t'') ''o/r'' = None"
    "sorted_key sort_key [item_b, item_a] = Inr ([item_a] @ item_b # [])"
    "1 \<in> set (dependencies item_b)"
    "\<forall>k<length [item_a]. issue_id ([item_a] ! k) = 1 \<longrightarrow>
       (\<exists>status msg. create_issue limited_world k = Raises status msg)"
    by (simp_all add: limited_world_def example_world_def item_a_def item_b_def sort_key_def
        phase_key_def key_lt_def cross_cutting_def)
  have t: "issue_title item_b = ''Phase 1: API''" "labels item_b = [''api'']"
    "dependencies item_b = [1, 7]"
    by (simp_all add: issue_title_def item_b_def cross_cutting_def str_int_def str_nat.simps)
  have c: "created_issues (run_loop limited_world False loop_start [item_a]) = []"
    by (simp add: loop_start_def limited_world_def process_issue_raises)
  from unresolved_dependency_omitted [OF h] t c show ?thesis
    by (simp del: run_loop.simps)
qed

section \<open>Dry runs and the exit status\<close>














end
